theory Spec2Isabelle
  imports Complex_Main
begin

section \<open>Circle challenge: stroke capture and circle scorer of \<open>src/App.tsx\<close>\<close>

text \<open>
  The component \<open>App\<close> keeps its mutable data in React refs and its score in React state.
  Both become fields of one record that every handler takes and returns.
  A JavaScript \<open>number\<close> is modelled as a \<open>real\<close>: exact arithmetic, without the rounding,
  the infinities and the NaN of IEEE doubles. \<open>Math.hypot\<close> is the root of the sum of the squares,
  \<open>Math.round\<close> is \<open>round\<close> (both are \<open>floor (x + 1/2)\<close>), \<open>**\<close> is \<open>powr\<close>.
  The value \<open>Math.round\<close> returns is integral, so the score is an \<open>int\<close>.
  The divisors of the code are the number of samples (at least six where it divides),
  \<open>radius * 0.6\<close>, \<open>circumference * 0.9\<close>, the width of the element rectangle and the
  stored pixel ratio: none is zero for a positive radius, a rectangle of positive width
  and a mounted component.
  The canvas drawing calls (\<open>beginPath\<close>, \<open>moveTo\<close>, \<open>lineTo\<close>, \<open>stroke\<close>, \<open>clearRect\<close>)
  paint pixels and touch none of the data below: they are left out, the null checks
  that guard them are kept.
\<close>

subsection \<open>Data\<close>

record Point =
  x :: real
  y :: real

definition CANVAS_SIZE :: real where
  "CANVAS_SIZE = 320"

text \<open>The canvas element: its backing store, its style size and the rectangle
  \<open>getBoundingClientRect\<close> returns for it. The attributes \<open>width\<close> and \<open>height\<close> of
  the element are unsigned integers.\<close>

record Canvas =
  width :: nat
  height :: nat
  style_width :: real
  style_height :: real
  rect_left :: real
  rect_top :: real
  rect_width :: real

record PointerEvent =
  clientX :: real
  clientY :: real
  pointerId :: nat

text \<open>\<open>contextRef\<close> is \<open>True\<close> when \<open>contextRef.current\<close> holds a rendering context;
  \<open>captured\<close> is the set of pointers the canvas element has captured.\<close>

record App =
  canvasRef :: "Canvas option"
  contextRef :: bool
  isDrawingRef :: bool
  pointsRef :: "Point list"
  dprRef :: real
  centerRef :: Point
  radiusRef :: real
  lastScore :: "int option"
  bestScore :: int
  hasAttempt :: bool
  captured :: "nat set"

subsection \<open>The scorer\<close>

definition hypot :: "real \<Rightarrow> real \<Rightarrow> real" where
  "hypot a b = sqrt (a\<^sup>2 + b\<^sup>2)"

text \<open>The \<open>for\<close> loop of \<open>scoreDrawing\<close>, with its two accumulators.\<close>

function score_loop ::
  "Point list \<Rightarrow> real \<Rightarrow> real \<Rightarrow> real \<Rightarrow> nat \<Rightarrow> real \<times> real \<Rightarrow> real \<times> real" where
  "score_loop points cx cy radius i (deviationSum, pathLength) =
     (if i < length points then
        let point = points ! i;
            distance = hypot (x point - cx) (y point - cy);
            deviationSum' = deviationSum + \<bar>distance - radius\<bar>;
            pathLength' =
              (if i > 0 then
                 let prev = points ! (i - 1)
                 in pathLength + hypot (x point - x prev) (y point - y prev)
               else pathLength)
        in score_loop points cx cy radius (i + 1) (deviationSum', pathLength')
      else (deviationSum, pathLength))"
  by pat_completeness auto
termination
  by (relation "measure (\<lambda>(points, cx, cy, radius, i, acc). length points - i)") auto

declare score_loop.simps [simp del]

definition deviationSum :: "Point list \<Rightarrow> Point \<Rightarrow> real \<Rightarrow> real" where
  "deviationSum points center radius =
     fst (score_loop points (x center) (y center) radius 0 (0, 0))"

definition pathLength :: "Point list \<Rightarrow> Point \<Rightarrow> real \<Rightarrow> real" where
  "pathLength points center radius =
     snd (score_loop points (x center) (y center) radius 0 (0, 0))"

definition avgDeviation :: "Point list \<Rightarrow> Point \<Rightarrow> real \<Rightarrow> real" where
  "avgDeviation points center radius =
     deviationSum points center radius / real (length points)"

definition deviationScore :: "Point list \<Rightarrow> Point \<Rightarrow> real \<Rightarrow> real" where
  "deviationScore points center radius =
     max 0 (1 - avgDeviation points center radius / (radius * 0.6))"

definition circumference :: "real \<Rightarrow> real" where
  "circumference radius = 2 * pi * radius"

definition coverageRatio :: "Point list \<Rightarrow> Point \<Rightarrow> real \<Rightarrow> real" where
  "coverageRatio points center radius =
     min (pathLength points center radius / (circumference radius * 0.9)) 1"

definition coverageScore :: "Point list \<Rightarrow> Point \<Rightarrow> real \<Rightarrow> real" where
  "coverageScore points center radius = coverageRatio points center radius powr 0.75"

definition finalScore :: "Point list \<Rightarrow> Point \<Rightarrow> real \<Rightarrow> int" where
  "finalScore points center radius =
     round ((deviationScore points center radius * 0.65
             + coverageScore points center radius * 0.35) * 100)"

definition scoreDrawing :: "Point list \<Rightarrow> Point \<Rightarrow> real \<Rightarrow> int" where
  "scoreDrawing points center radius =
     (if length points < 6 then 0
      else max 0 (min (finalScore points center radius) 100))"

subsection \<open>The scorer as the specification words it\<close>

text \<open>Section 4.2 of the specification, step by step: the mean absolute deviation from the
  radius, the sum of the distances between consecutive samples, and the weighted, rounded
  and clamped total.\<close>

definition spec_distance :: "Point \<Rightarrow> Point \<Rightarrow> real" where
  "spec_distance p q = sqrt ((x p - x q)\<^sup>2 + (y p - y q)\<^sup>2)"

definition spec_avgDeviation :: "Point list \<Rightarrow> Point \<Rightarrow> real \<Rightarrow> real" where
  "spec_avgDeviation stroke center radius =
     (\<Sum>p\<leftarrow>stroke. \<bar>spec_distance p center - radius\<bar>) / real (length stroke)"

fun spec_pathLength :: "Point list \<Rightarrow> real" where
  "spec_pathLength (p # q # stroke) = spec_distance p q + spec_pathLength (q # stroke)"
| "spec_pathLength stroke = 0"

definition spec_deviationScore :: "Point list \<Rightarrow> Point \<Rightarrow> real \<Rightarrow> real" where
  "spec_deviationScore stroke center radius =
     max 0 (1 - spec_avgDeviation stroke center radius / (radius * 0.6))"

definition spec_coverageRatio :: "Point list \<Rightarrow> real \<Rightarrow> real" where
  "spec_coverageRatio stroke radius =
     min (spec_pathLength stroke / (2 * pi * radius * 0.9)) 1"

definition spec_coverageScore :: "Point list \<Rightarrow> real \<Rightarrow> real" where
  "spec_coverageScore stroke radius = spec_coverageRatio stroke radius powr 0.75"

definition spec_score :: "Point list \<Rightarrow> Point \<Rightarrow> real \<Rightarrow> int" where
  "spec_score stroke center radius =
     (if length stroke < 6 then 0
      else max 0 (min (round ((spec_deviationScore stroke center radius * 0.65
                               + spec_coverageScore stroke radius * 0.35) * 100)) 100))"

subsection \<open>Mounting: the initial values and the canvas effect\<close>

text \<open>The values of \<open>useRef\<close> and \<open>useState\<close> at the first render; the canvas ref is attached
  to the element, when there is one.\<close>

definition initial :: "Canvas option \<Rightarrow> App" where
  "initial canvas =
     \<lparr>canvasRef = canvas, contextRef = False, isDrawingRef = False, pointsRef = [],
      dprRef = 1,
      centerRef = \<lparr>x = CANVAS_SIZE / 2, y = CANVAS_SIZE / 2\<rparr>,
      radiusRef = CANVAS_SIZE * 0.38,
      lastScore = None, bestScore = 0, hasAttempt = False, captured = {}\<rparr>"

text \<open>Assigning a number to \<open>canvas.width\<close> or \<open>canvas.height\<close> converts it to an
  unsigned long: the fraction is cut off towards zero and the result taken modulo
  \<open>2^32\<close>; the attribute then keeps a value up to \<open>2^31 - 1\<close> and falls back to its
  default (300 for the width, 150 for the height) above that.\<close>

definition to_unsigned_long :: "real \<Rightarrow> nat" where
  "to_unsigned_long v = nat ((if v < 0 then - \<lfloor>- v\<rfloor> else \<lfloor>v\<rfloor>) mod 4294967296)"

definition set_dimension :: "nat \<Rightarrow> real \<Rightarrow> nat" where
  "set_dimension fallback v =
     (let n = to_unsigned_long v in if n \<le> 2147483647 then n else fallback)"

text \<open>The canvas initialisation effect. \<open>gotContext\<close> says whether \<open>getContext("2d")\<close> returned
  a context, \<open>windowDevicePixelRatio\<close> is \<open>window.devicePixelRatio\<close>; \<open>||\<close> replaces a falsy
  ratio by 1.\<close>

definition canvas_effect :: "bool \<Rightarrow> real \<Rightarrow> App \<Rightarrow> App" where
  "canvas_effect gotContext windowDevicePixelRatio s =
     (case canvasRef s of
        None \<Rightarrow> s
      | Some canvas \<Rightarrow>
          if \<not> gotContext then s
          else
            let devicePixelRatio =
                  (if windowDevicePixelRatio = 0 then 1 else windowDevicePixelRatio)
            in s\<lparr>contextRef := True,
                 dprRef := devicePixelRatio,
                 canvasRef := Some (canvas\<lparr>width := set_dimension 300 (CANVAS_SIZE * devicePixelRatio),
                                           height := set_dimension 150 (CANVAS_SIZE * devicePixelRatio),
                                           style_width := CANVAS_SIZE,
                                           style_height := CANVAS_SIZE\<rparr>),
                 centerRef := \<lparr>x = CANVAS_SIZE / 2, y = CANVAS_SIZE / 2\<rparr>,
                 radiusRef := CANVAS_SIZE * 0.38\<rparr>)"

definition mounted :: "Canvas option \<Rightarrow> bool \<Rightarrow> real \<Rightarrow> App" where
  "mounted canvas gotContext windowDevicePixelRatio =
     canvas_effect gotContext windowDevicePixelRatio (initial canvas)"

subsection \<open>Stroke capture\<close>

definition getPointerPosition :: "App \<Rightarrow> PointerEvent \<Rightarrow> Point option" where
  "getPointerPosition s event =
     (case canvasRef s of
        None \<Rightarrow> None
      | Some canvas \<Rightarrow>
          let scale = real (width canvas) / rect_width canvas
          in Some \<lparr>x = (clientX event - rect_left canvas) * (scale / dprRef s),
                   y = (clientY event - rect_top canvas) * (scale / dprRef s)\<rparr>)"

definition handlePointerDown :: "App \<Rightarrow> PointerEvent \<Rightarrow> App" where
  "handlePointerDown s event =
     (if \<not> contextRef s then s
      else case getPointerPosition s event of
             None \<Rightarrow> s
           | Some position \<Rightarrow>
               s\<lparr>captured := insert (pointerId event) (captured s),
                 pointsRef := [position],
                 isDrawingRef := True\<rparr>)"

text \<open>With an empty buffer \<open>points[points.length - 1]\<close> is \<open>undefined\<close> and reading its \<open>x\<close>
  throws before anything is written: the handler leaves the state as it was.\<close>

definition handlePointerMove :: "App \<Rightarrow> PointerEvent \<Rightarrow> App" where
  "handlePointerMove s event =
     (if \<not> isDrawingRef s then s
      else if \<not> contextRef s then s
      else case getPointerPosition s event of
             None \<Rightarrow> s
           | Some position \<Rightarrow>
               if pointsRef s = [] then s
               else s\<lparr>pointsRef := pointsRef s @ [position]\<rparr>)"

definition finishDrawing :: "App \<Rightarrow> App" where
  "finishDrawing s =
     (if \<not> isDrawingRef s then s
      else
        let s1 = s\<lparr>isDrawingRef := False\<rparr>;
            attemptPoints = pointsRef s1
        in if length attemptPoints = 0 then s1
           else
             let nextScore = scoreDrawing (pointsRef s1) (centerRef s1) (radiusRef s1)
             in s1\<lparr>lastScore := Some nextScore,
                    hasAttempt := True,
                    bestScore := max (bestScore s1) nextScore,
                    pointsRef := []\<rparr>)"

definition releaseIfCaptured :: "App \<Rightarrow> PointerEvent \<Rightarrow> App" where
  "releaseIfCaptured s event =
     (if pointerId event \<in> captured s
      then s\<lparr>captured := captured s - {pointerId event}\<rparr>
      else s)"

definition handlePointerUp :: "App \<Rightarrow> PointerEvent \<Rightarrow> App" where
  "handlePointerUp s event = finishDrawing (releaseIfCaptured s event)"

definition handlePointerLeave :: "App \<Rightarrow> PointerEvent \<Rightarrow> App" where
  "handlePointerLeave s event = finishDrawing (releaseIfCaptured s event)"

definition handlePointerCancel :: "App \<Rightarrow> PointerEvent \<Rightarrow> App" where
  "handlePointerCancel s event = finishDrawing (releaseIfCaptured s event)"

text \<open>The five handlers the canvas element registers, and the events handled in the
  order they are delivered.\<close>

datatype Event =
    PointerDown PointerEvent
  | PointerMove PointerEvent
  | PointerUp PointerEvent
  | PointerCancel PointerEvent
  | PointerLeave PointerEvent

fun handle :: "App \<Rightarrow> Event \<Rightarrow> App" where
  "handle s (PointerDown event) = handlePointerDown s event"
| "handle s (PointerMove event) = handlePointerMove s event"
| "handle s (PointerUp event) = handlePointerUp s event"
| "handle s (PointerCancel event) = handlePointerCancel s event"
| "handle s (PointerLeave event) = handlePointerLeave s event"

fun run :: "App \<Rightarrow> Event list \<Rightarrow> App" where
  "run s [] = s"
| "run s (e # es) = run (handle s e) es"

text \<open>The values of \<open>lastScore\<close> the presentation layer is given, one after each event
  (\<open>null\<close> left out).\<close>

fun lastScores :: "App \<Rightarrow> Event list \<Rightarrow> int list" where
  "lastScores s [] = []"
| "lastScores s (e # es) =
     (case lastScore (handle s e) of None \<Rightarrow> [] | Some v \<Rightarrow> [v])
     @ lastScores (handle s e) es"

text \<open>A stroke of \<open>n\<close> samples on the circle, evenly spaced over a full revolution:
  sample \<open>k\<close> stands at the angle \<open>k\<close> times the \<open>n\<close>-th of the full turn.\<close>

definition on_circle :: "Point \<Rightarrow> real \<Rightarrow> real \<Rightarrow> Point" where
  "on_circle center radius theta =
     \<lparr>x = x center + radius * cos theta, y = y center + radius * sin theta\<rparr>"

definition revolution :: "Point \<Rightarrow> real \<Rightarrow> nat \<Rightarrow> Point list" where
  "revolution center radius n =
     map (\<lambda>k. on_circle center radius (real k * (2 * pi / real n))) [0..<n]"

text \<open>The same with the last sample back on the first: \<open>n - 1\<close> equal steps make the
  full turn.\<close>

definition closed_revolution :: "Point \<Rightarrow> real \<Rightarrow> nat \<Rightarrow> Point list" where
  "closed_revolution center radius n =
     map (\<lambda>k. on_circle center radius (real k * (2 * pi / real (n - 1)))) [0..<n]"

subsection \<open>Invariants of the capture state machine\<close>

text \<open>A recorded \<open>lastScore\<close> is never negative and never above \<open>bestScore\<close>.\<close>

definition score_inv :: "App \<Rightarrow> bool" where
  "score_inv s = (case lastScore s of None \<Rightarrow> True | Some v \<Rightarrow> 0 \<le> v \<and> v \<le> bestScore s)"

text \<open>The buffer holds samples exactly while a gesture is being drawn.\<close>

definition capture_inv :: "App \<Rightarrow> bool" where
  "capture_inv s = ((isDrawingRef s \<longleftrightarrow> pointsRef s \<noteq> []) \<and> 0 \<le> bestScore s)"

subsection \<open>The loop computes the two sums\<close>

lemma spec_pathLength_drop:
  assumes "Suc i < length points"
  shows "spec_pathLength (drop i points) =
         spec_distance (points ! i) (points ! Suc i) + spec_pathLength (drop (Suc i) points)"
proof -
  have "drop i points = points ! i # points ! Suc i # drop (Suc (Suc i)) points"
    using assms by (simp add: Cons_nth_drop_Suc Suc_lessD)
  moreover have "drop (Suc i) points = points ! Suc i # drop (Suc (Suc i)) points"
    using assms by (simp add: Cons_nth_drop_Suc)
  ultimately show ?thesis by simp
qed

lemma spec_pathLength_last:
  assumes "Suc i = length points"
  shows "spec_pathLength (drop i points) = 0"
proof -
  have "drop i points = [points ! i]"
    using assms by (metis Cons_nth_drop_Suc drop_all lessI order_refl)
  then show ?thesis by simp
qed

lemma score_loop_sums:
  "i \<le> length points \<Longrightarrow>
   score_loop points cx cy radius i (d, l) =
     (d + (\<Sum>p\<leftarrow>drop i points. \<bar>hypot (x p - cx) (y p - cy) - radius\<bar>),
      l + spec_pathLength (drop (i - 1) points))"
proof (induction "length points - i" arbitrary: i d l)
  case 0
  then have "i = length points" by simp
  then show ?case
    by (cases "length points") (simp_all add: score_loop.simps spec_pathLength_last)
next
  case (Suc n)
  let ?dev = "\<lambda>p. \<bar>hypot (x p - cx) (y p - cy) - radius\<bar>"
  let ?seg = "hypot (x (points ! i) - x (points ! (i - 1))) (y (points ! i) - y (points ! (i - 1)))"
  let ?l' = "if i > 0 then l + ?seg else l"
  from Suc.hyps(2) have lt: "i < length points" by simp
  have rest: "n = length points - Suc i" "Suc i \<le> length points"
    using Suc.hyps(2) by simp_all
  have unfold: "score_loop points cx cy radius i (d, l) =
                score_loop points cx cy radius (Suc i) (d + ?dev (points ! i), ?l')"
    using lt by (subst score_loop.simps) (simp add: Let_def)
  have devs: "(\<Sum>p\<leftarrow>drop i points. ?dev p) =
              ?dev (points ! i) + (\<Sum>p\<leftarrow>drop (Suc i) points. ?dev p)"
    by (simp add: Cons_nth_drop_Suc [OF lt, symmetric])
  have path: "?l' + spec_pathLength (drop i points) = l + spec_pathLength (drop (i - 1) points)"
  proof (cases i)
    case 0
    then show ?thesis by simp
  next
    case (Suc j)
    have "spec_distance (points ! j) (points ! i) =
          hypot (x (points ! i) - x (points ! j)) (y (points ! i) - y (points ! j))"
      by (simp add: spec_distance_def hypot_def power2_commute)
    then show ?thesis
      using lt Suc spec_pathLength_drop [of j points] by simp
  qed
  have "score_loop points cx cy radius i (d, l) =
        (d + ?dev (points ! i) + (\<Sum>p\<leftarrow>drop (Suc i) points. ?dev p),
         ?l' + spec_pathLength (drop i points))"
    unfolding unfold using Suc.hyps(1) [OF rest] by simp
  then show ?case
    unfolding devs path [symmetric] by (simp only: add.assoc)
qed

lemma deviationSum_sum:
  "deviationSum points center radius =
     (\<Sum>p\<leftarrow>points. \<bar>spec_distance p center - radius\<bar>)"
  by (simp add: deviationSum_def score_loop_sums hypot_def spec_distance_def)

lemma pathLength_sum:
  "pathLength points center radius = spec_pathLength points"
  by (simp add: pathLength_def score_loop_sums)

subsection \<open>Scores of the scorer\<close>

lemma scoreDrawing_nonneg: "0 \<le> scoreDrawing points center radius"
  by (simp add: scoreDrawing_def)

lemma deviationSum_nonneg: "0 \<le> deviationSum points center radius"
  unfolding deviationSum_sum by (rule sum_list_nonneg) auto

lemma deviationScore_le_1:
  assumes "0 < radius"
  shows "deviationScore points center radius \<le> 1"
proof -
  have "0 \<le> avgDeviation points center radius"
    by (simp add: avgDeviation_def deviationSum_nonneg)
  then have "0 \<le> avgDeviation points center radius / (radius * 0.6)"
    using assms by simp
  then show ?thesis by (simp add: deviationScore_def)
qed

lemma spec_pathLength_replicate: "spec_pathLength (replicate n p) = 0"
proof (induction n)
  case 0
  then show ?case by simp
next
  case (Suc n)
  then show ?case by (cases n) (simp_all add: spec_distance_def)
qed

lemma coverageScore_stationary: "coverageScore (replicate n p) center radius = 0"
  by (simp add: coverageScore_def coverageRatio_def pathLength_sum spec_pathLength_replicate)


subsection \<open>What the handlers do to the score state\<close>

lemma releaseIfCaptured_fields [simp]:
  "pointsRef (releaseIfCaptured s e) = pointsRef s"
  "isDrawingRef (releaseIfCaptured s e) = isDrawingRef s"
  "lastScore (releaseIfCaptured s e) = lastScore s"
  "bestScore (releaseIfCaptured s e) = bestScore s"
  "hasAttempt (releaseIfCaptured s e) = hasAttempt s"
  "centerRef (releaseIfCaptured s e) = centerRef s"
  "radiusRef (releaseIfCaptured s e) = radiusRef s"
  by (simp_all add: releaseIfCaptured_def)

lemma finishDrawing_empty:
  "pointsRef s = [] \<Longrightarrow>
   lastScore (finishDrawing s) = lastScore s \<and> bestScore (finishDrawing s) = bestScore s \<and>
   hasAttempt (finishDrawing s) = hasAttempt s"
  by (simp add: finishDrawing_def Let_def)

lemma finishDrawing_scores:
  "(lastScore (finishDrawing s) = lastScore s \<and> bestScore (finishDrawing s) = bestScore s \<and>
    hasAttempt (finishDrawing s) = hasAttempt s)
   \<or> (\<exists>v\<ge>0. lastScore (finishDrawing s) = Some v \<and>
             bestScore (finishDrawing s) = max (bestScore s) v \<and> hasAttempt (finishDrawing s))"
  by (auto simp add: finishDrawing_def Let_def scoreDrawing_nonneg)

lemma handlePointerDown_scores [simp]:
  "lastScore (handlePointerDown s e) = lastScore s"
  "bestScore (handlePointerDown s e) = bestScore s"
  "hasAttempt (handlePointerDown s e) = hasAttempt s"
  by (simp_all add: handlePointerDown_def split: option.split)

lemma handlePointerMove_scores [simp]:
  "lastScore (handlePointerMove s e) = lastScore s"
  "bestScore (handlePointerMove s e) = bestScore s"
  "hasAttempt (handlePointerMove s e) = hasAttempt s"
  by (simp_all add: handlePointerMove_def split: option.split)

lemma handle_scores:
  "(lastScore (handle s e) = lastScore s \<and> bestScore (handle s e) = bestScore s \<and>
    hasAttempt (handle s e) = hasAttempt s)
   \<or> (\<exists>v\<ge>0. lastScore (handle s e) = Some v \<and>
             bestScore (handle s e) = max (bestScore s) v \<and> hasAttempt (handle s e))"
proof (cases e)
  case (PointerDown ev)
  then show ?thesis by simp
next
  case (PointerMove ev)
  then show ?thesis by simp
next
  case (PointerUp ev)
  then show ?thesis
    using finishDrawing_scores [of "releaseIfCaptured s ev"] by (simp add: handlePointerUp_def)
next
  case (PointerCancel ev)
  then show ?thesis
    using finishDrawing_scores [of "releaseIfCaptured s ev"] by (simp add: handlePointerCancel_def)
next
  case (PointerLeave ev)
  then show ?thesis
    using finishDrawing_scores [of "releaseIfCaptured s ev"] by (simp add: handlePointerLeave_def)
qed

lemma score_inv_handle: "score_inv s \<Longrightarrow> score_inv (handle s e)"
  using handle_scores [of s e] by (auto simp add: score_inv_def split: option.splits)

lemma score_inv_mounted: "score_inv (mounted canvas gotContext ratio)"
  by (simp add: score_inv_def mounted_def canvas_effect_def initial_def Let_def
      split: option.split)

lemma bestScore_mounted: "bestScore (mounted canvas gotContext ratio) = 0"
  by (simp add: mounted_def canvas_effect_def initial_def Let_def split: option.split)

lemma run_fold_max:
  "score_inv s \<Longrightarrow> bestScore (run s evs) = fold max (lastScores s evs) (bestScore s)"
proof (induction evs arbitrary: s)
  case Nil
  then show ?case by simp
next
  case (Cons e evs)
  have inv': "score_inv (handle s e)" using Cons.prems by (rule score_inv_handle)
  note IH = Cons.IH [OF inv']
  from handle_scores [of s e] show ?case
  proof (elim disjE conjE exE)
    assume same: "lastScore (handle s e) = lastScore s" "bestScore (handle s e) = bestScore s"
    show ?thesis
    proof (cases "lastScore s")
      case None
      then show ?thesis using IH same by simp
    next
      case (Some v)
      then have "max v (bestScore s) = bestScore s"
        using Cons.prems by (simp add: score_inv_def split: option.splits)
      then show ?thesis using IH same Some by simp
    qed
  next
    fix v
    assume "lastScore (handle s e) = Some v" "bestScore (handle s e) = max (bestScore s) v"
    then show ?thesis using IH by (simp add: max.commute)
  qed
qed

lemma lastScores_nonneg:
  "score_inv s \<Longrightarrow> v \<in> set (lastScores s evs) \<Longrightarrow> 0 \<le> v"
proof (induction evs arbitrary: s)
  case Nil
  then show ?case by simp
next
  case (Cons e evs)
  have inv': "score_inv (handle s e)" using Cons.prems(1) by (rule score_inv_handle)
  show ?case
  proof (cases "v \<in> set (lastScores (handle s e) evs)")
    case True
    then show ?thesis using Cons.IH [OF inv'] by simp
  next
    case False
    then have "lastScore (handle s e) = Some v"
      using Cons.prems(2) by (auto split: option.splits)
    then show ?thesis using inv' by (simp add: score_inv_def split: option.splits)
  qed
qed

lemma run_append: "run s (evs @ later) = run (run s evs) later"
  by (induction evs arbitrary: s) simp_all

lemma bestScore_run_mono: "bestScore s \<le> bestScore (run s evs)"
proof (induction evs arbitrary: s)
  case Nil
  then show ?case by simp
next
  case (Cons e evs)
  have "bestScore s \<le> bestScore (handle s e)"
    using handle_scores [of s e] by auto
  also have "\<dots> \<le> bestScore (run (handle s e) evs)" by (rule Cons.IH)
  finally show ?case by simp
qed

lemma capture_inv_mounted: "capture_inv (mounted canvas gotContext ratio)"
  by (simp add: capture_inv_def mounted_def canvas_effect_def initial_def Let_def
      split: option.split)

lemma capture_inv_finish: "capture_inv s \<Longrightarrow> capture_inv (finishDrawing (releaseIfCaptured s e))"
  by (auto simp add: capture_inv_def finishDrawing_def Let_def)

lemma capture_inv_handle: "capture_inv s \<Longrightarrow> capture_inv (handle s e)"
proof (cases e)
  case (PointerDown ev)
  assume "capture_inv s"
  then show ?thesis using PointerDown
    by (auto simp add: capture_inv_def handlePointerDown_def split: option.split)
next
  case (PointerMove ev)
  assume "capture_inv s"
  then show ?thesis using PointerMove
    by (auto simp add: capture_inv_def handlePointerMove_def split: option.split)
next
  case (PointerUp ev)
  assume "capture_inv s"
  then show ?thesis using PointerUp by (simp add: handlePointerUp_def capture_inv_finish)
next
  case (PointerCancel ev)
  assume "capture_inv s"
  then show ?thesis using PointerCancel by (simp add: handlePointerCancel_def capture_inv_finish)
next
  case (PointerLeave ev)
  assume "capture_inv s"
  then show ?thesis using PointerLeave by (simp add: handlePointerLeave_def capture_inv_finish)
qed

lemma capture_inv_run: "capture_inv s \<Longrightarrow> capture_inv (run s evs)"
  by (induction evs arbitrary: s) (simp_all add: capture_inv_handle)

lemma finishDrawing_short:
  assumes "isDrawingRef s" and "1 \<le> length (pointsRef s)" and "length (pointsRef s) \<le> 5"
  shows "lastScore (finishDrawing (releaseIfCaptured s e)) = Some 0 \<and>
         hasAttempt (finishDrawing (releaseIfCaptured s e)) \<and>
         bestScore (finishDrawing (releaseIfCaptured s e)) = max (bestScore s) 0"
proof -
  from assms(2) have "pointsRef s \<noteq> []" by auto
  then show ?thesis
    using assms by (simp add: finishDrawing_def Let_def scoreDrawing_def)
qed

lemma hasAttempt_run: "hasAttempt s \<Longrightarrow> hasAttempt (run s evs)"
proof (induction evs arbitrary: s)
  case Nil
  then show ?case by simp
next
  case (Cons e evs)
  have "hasAttempt (handle s e)" using handle_scores [of s e] Cons.prems by auto
  then show ?case using Cons.IH by simp
qed

lemma lastScore_run: "lastScore s \<noteq> None \<Longrightarrow> lastScore (run s evs) \<noteq> None"
proof (induction evs arbitrary: s)
  case Nil
  then show ?case by simp
next
  case (Cons e evs)
  have "lastScore (handle s e) \<noteq> None" using handle_scores [of s e] Cons.prems by auto
  then show ?case using Cons.IH by simp
qed


subsection \<open>Bounds on the sine and on pi\<close>

lemma sin_coeff_sum_5: "(\<Sum>m<5. sin_coeff m * x ^ m) = x - x^3/6" for x :: real
proof -
  have "{..<5::nat} = {0,1,2,3,4}" by auto
  then show ?thesis
    by (simp add: sin_coeff_def fact_numeral)
qed

lemma sin_coeff_sum_7: "(\<Sum>m<7. sin_coeff m * x ^ m) = x - x^3/6 + x^5/120" for x :: real
proof -
  have "{..<7::nat} = {0,1,2,3,4,5,6}" by auto
  then show ?thesis
    by (simp add: sin_coeff_def fact_numeral)
qed

lemma sin_lower:
  fixes x :: real
  assumes "0 \<le> x"
  shows "x - x^3/6 - x^5/120 \<le> sin x"
proof -
  have f: "fact 5 = (120::real)" by (simp add: fact_numeral)
  have "\<bar>sin x - (x - x^3/6)\<bar> \<le> inverse 120 * \<bar>x\<bar> ^ 5"
    using Maclaurin_sin_bound [of x 5] unfolding sin_coeff_sum_5 f .
  then have "\<bar>sin x - (x - x^3/6)\<bar> \<le> x ^ 5 / 120"
    using assms by simp
  then show ?thesis by linarith
qed

lemma sin_upper:
  fixes x :: real
  assumes "0 \<le> x"
  shows "sin x \<le> x - x^3/6 + x^5/120 + x^7/5040"
proof -
  have f: "fact 7 = (5040::real)" by (simp add: fact_numeral)
  have "\<bar>sin x - (x - x^3/6 + x^5/120)\<bar> \<le> inverse 5040 * \<bar>x\<bar> ^ 7"
    using Maclaurin_sin_bound [of x 7] unfolding sin_coeff_sum_7 f .
  then have "\<bar>sin x - (x - x^3/6 + x^5/120)\<bar> \<le> x ^ 7 / 5040"
    using assms by simp
  then show ?thesis by linarith
qed

lemma power_Suc_le:
  fixes x :: real
  assumes "0 \<le> x" and "x \<le> b" and "b ^ n \<le> c"
  shows "x ^ Suc n \<le> c * x"
proof -
  have "x ^ n \<le> b ^ n" using assms(1,2) by (simp add: power_mono)
  then have "x ^ n \<le> c" using assms(3) by simp
  then have "x ^ n * x \<le> c * x" using assms(1) by (rule mult_right_mono)
  then show ?thesis by (simp add: mult.commute)
qed

lemma power_Suc_ge:
  fixes x :: real
  assumes "0 \<le> a" and "a \<le> x" and "c \<le> a ^ n"
  shows "c * x \<le> x ^ Suc n"
proof -
  have "0 \<le> x" using assms by simp
  have "a ^ n \<le> x ^ n" using assms(1,2) by (simp add: power_mono)
  then have "c \<le> x ^ n" using assms(3) by simp
  then have "c * x \<le> x ^ n * x" using \<open>0 \<le> x\<close> by (rule mult_right_mono)
  then show ?thesis by (simp add: mult.commute)
qed

lemma pow3_le: "0 \<le> x \<Longrightarrow> x \<le> b \<Longrightarrow> b ^ 2 \<le> c \<Longrightarrow> x ^ 3 \<le> c * x" for x :: real
  using power_Suc_le [of x b 2 c] by (simp add: numeral_3_eq_3)

lemma pow5_le: "0 \<le> x \<Longrightarrow> x \<le> b \<Longrightarrow> b ^ 4 \<le> c \<Longrightarrow> x ^ 5 \<le> c * x" for x :: real
proof -
  have "Suc 4 = 5" by simp
  then show "0 \<le> x \<Longrightarrow> x \<le> b \<Longrightarrow> b ^ 4 \<le> c \<Longrightarrow> x ^ 5 \<le> c * x"
    using power_Suc_le [of x b 4 c] by (simp only:)
qed

lemma pow7_le: "0 \<le> x \<Longrightarrow> x \<le> b \<Longrightarrow> b ^ 6 \<le> c \<Longrightarrow> x ^ 7 \<le> c * x" for x :: real
proof -
  have "Suc 6 = 7" by simp
  then show "0 \<le> x \<Longrightarrow> x \<le> b \<Longrightarrow> b ^ 6 \<le> c \<Longrightarrow> x ^ 7 \<le> c * x"
    using power_Suc_le [of x b 6 c] by (simp only:)
qed

lemma pow3_ge: "0 \<le> a \<Longrightarrow> a \<le> x \<Longrightarrow> c \<le> a ^ 2 \<Longrightarrow> c * x \<le> x ^ 3" for x :: real
proof -
  have "Suc 2 = 3" by simp
  then show "0 \<le> a \<Longrightarrow> a \<le> x \<Longrightarrow> c \<le> a ^ 2 \<Longrightarrow> c * x \<le> x ^ 3"
    using power_Suc_ge [of a x c 2] by (simp only:)
qed

lemma pi_ge_3: "3 \<le> pi"
  using sin_x_le_x [of "pi/6"] by (simp add: sin_30)

lemma sin_pi_6_bounds:
  "pi/6 - (pi/6)^3/6 - (pi/6)^5/120 \<le> 1/2"
  "1/2 \<le> pi/6 - (pi/6)^3/6 + (pi/6)^5/120 + (pi/6)^7/5040"
  using sin_lower [of "pi/6"] sin_upper [of "pi/6"] by (simp_all only: sin_30 pi_ge_zero divide_nonneg_nonneg zero_le_numeral)

lemma pi_le_325: "pi \<le> 3.25"
proof -
  define t where "t = pi / 6"
  have t0: "0 \<le> t" and t1: "t \<le> 2/3"
    using pi_less_4 by (simp_all add: t_def)
  have "t ^ 3 \<le> 4/9 * t"
    using t0 t1 by (rule pow3_le) (simp add: power2_eq_square)
  moreover have "t ^ 5 \<le> 16/81 * t"
    using t0 t1 by (rule pow5_le) (simp add: power_divide)
  moreover have "t - t^3/6 - t^5/120 \<le> 1/2"
    using sin_pi_6_bounds(1) by (simp only: t_def)
  ultimately have "t \<le> 541/1000" by linarith
  then show ?thesis by (simp add: t_def)
qed

lemma pi_le_316: "pi \<le> 3.16"
proof -
  define t where "t = pi / 6"
  have t0: "0 \<le> t" and t1: "t \<le> 542/1000"
    using pi_le_325 by (simp_all add: t_def)
  have "t ^ 3 \<le> 294/1000 * t"
    using t0 t1 by (rule pow3_le) (simp add: power2_eq_square)
  moreover have "t ^ 5 \<le> 87/1000 * t"
    using t0 t1 by (rule pow5_le) (simp add: power_divide)
  moreover have "t - t^3/6 - t^5/120 \<le> 1/2"
    using sin_pi_6_bounds(1) by (simp only: t_def)
  ultimately have "t \<le> 5266/10000" by linarith
  then show ?thesis by (simp add: t_def)
qed

lemma pi_ge_312: "3.12 \<le> pi"
proof -
  define t where "t = pi / 6"
  have t0: "0 \<le> t" and t1: "t \<le> 542/1000" and t2: "1/2 \<le> t"
    using pi_le_325 pi_ge_3 by (simp_all add: t_def)
  have "t ^ 5 \<le> 9/100 * t"
    using t0 t1 by (rule pow5_le) (simp add: power_divide)
  moreover have "t ^ 7 \<le> 3/100 * t"
    using t0 t1 by (rule pow7_le) (simp add: power_divide)
  moreover have "1/4 * t \<le> t ^ 3"
    using _ t2 by (rule pow3_ge) (simp_all add: power2_eq_square)
  moreover have "1/2 \<le> t - t^3/6 + t^5/120 + t^7/5040"
    using sin_pi_6_bounds(2) by (simp only: t_def)
  ultimately have "52/100 \<le> t" by linarith
  then show ?thesis by (simp add: t_def)
qed

lemma sin_pi_over_n:
  assumes "12 \<le> n"
  shows "0.9 * pi \<le> real (n - 1) * sin (pi / real n)"
proof -
  define t where "t = pi / real n"
  have n0: "0 < real n" and n12: "12 \<le> real n" using assms by simp_all
  have t0: "0 \<le> t" by (simp add: t_def)
  have "t \<le> pi / 12"
    unfolding t_def using n12 by (intro divide_left_mono) simp_all
  then have t1: "t \<le> 3/10" using pi_le_325 by simp
  have "t ^ 3 \<le> 9/100 * t"
    using t0 t1 by (rule pow3_le) (simp add: power2_eq_square)
  moreover have "t ^ 5 \<le> 1/100 * t"
    using t0 t1 by (rule pow5_le) (simp add: power_divide)
  ultimately have low: "984/1000 * t \<le> sin t"
    using sin_lower [OF t0] t0 by linarith
  have "0.9 * real n \<le> 984/1000 * real (n - 1)"
    using assms by (simp add: of_nat_diff)
  then have "0.9 * real n * t \<le> 984/1000 * real (n - 1) * t"
    using t0 by (rule mult_right_mono)
  moreover have "real n * t = pi" using n0 by (simp add: t_def)
  ultimately have "0.9 * pi \<le> real (n - 1) * (984/1000 * t)"
    by (simp add: mult.assoc mult.left_commute)
  also have "\<dots> \<le> real (n - 1) * sin t"
    using low by (intro mult_left_mono) simp_all
  finally show ?thesis by (simp add: t_def)
qed


lemma sin_pi_over_m:
  assumes "5 \<le> m"
  shows "0.9 * pi \<le> real m * sin (pi / real m)"
proof -
  define t where "t = pi / real m"
  have m0: "0 < real m" and m5: "5 \<le> real m" using assms by simp_all
  have t0: "0 \<le> t" by (simp add: t_def)
  have "t \<le> pi / 5"
    unfolding t_def using m5 by (intro divide_left_mono) simp_all
  then have t1: "t \<le> 65/100" using pi_le_325 by simp
  have "t ^ 3 \<le> 43/100 * t"
    using t0 t1 by (rule pow3_le) (simp add: power2_eq_square)
  moreover have "t ^ 5 \<le> 18/100 * t"
    using t0 t1 by (rule pow5_le) (simp add: power_divide)
  ultimately have low: "9/10 * t \<le> sin t"
    using sin_lower [OF t0] t0 by linarith
  have "real m * t = pi" using m0 by (simp add: t_def)
  then have "0.9 * pi = real m * (9/10 * t)" by simp
  also have "\<dots> \<le> real m * sin t"
    using low by (intro mult_left_mono) simp_all
  finally show ?thesis by (simp add: t_def)
qed

subsection \<open>Strokes on the reference circle\<close>

lemma on_circle_center_distance:
  "spec_distance (on_circle center radius theta) center = \<bar>radius\<bar>"
proof -
  have one: "(cos theta)\<^sup>2 + (sin theta)\<^sup>2 = 1" by simp
  have "(radius * cos theta)\<^sup>2 + (radius * sin theta)\<^sup>2 =
        radius\<^sup>2 * ((cos theta)\<^sup>2 + (sin theta)\<^sup>2)"
    by (simp only: power_mult_distrib distrib_left)
  also have "\<dots> = radius\<^sup>2" by (simp only: one mult_1_right)
  finally show ?thesis
    by (simp add: spec_distance_def on_circle_def)
qed

lemma chord_square:
  "(cos a - cos b)\<^sup>2 + (sin a - sin b)\<^sup>2 = (2 * sin ((a - b) / 2))\<^sup>2" for a b :: real
proof -
  have "(cos a - cos b)\<^sup>2 + (sin a - sin b)\<^sup>2 =
        ((cos a)\<^sup>2 + (sin a)\<^sup>2) + ((cos b)\<^sup>2 + (sin b)\<^sup>2) - 2 * (cos a * cos b + sin a * sin b)"
    by (simp add: power2_diff algebra_simps)
  also have "\<dots> = 2 - 2 * cos (a - b)"
    by (simp add: cos_diff)
  also have "\<dots> = 4 * (sin ((a - b) / 2))\<^sup>2"
  proof -
    define s where "s = sin ((a - b) / 2)"
    have h: "2 * ((a - b) / 2) = a - b" by simp
    have "cos (a - b) = 1 - 2 * s\<^sup>2"
      using cos_double_sin [of "(a - b) / 2"] unfolding h s_def .
    then show ?thesis unfolding s_def [symmetric] by simp
  qed
  finally show ?thesis by (simp add: power_mult_distrib)
qed

lemma on_circle_chord:
  "spec_distance (on_circle center radius a) (on_circle center radius b) =
     2 * \<bar>radius\<bar> * \<bar>sin ((a - b) / 2)\<bar>"
proof -
  have "(radius * cos a - radius * cos b)\<^sup>2 + (radius * sin a - radius * sin b)\<^sup>2 =
        radius\<^sup>2 * ((cos a - cos b)\<^sup>2 + (sin a - sin b)\<^sup>2)"
    by (simp add: power_mult_distrib right_diff_distrib [symmetric] distrib_left)
  also have "\<dots> = (radius * (2 * sin ((a - b) / 2)))\<^sup>2"
    by (simp only: chord_square power_mult_distrib)
  finally show ?thesis
    by (simp add: spec_distance_def on_circle_def abs_mult)
qed

lemma spec_pathLength_constant_step:
  "(\<And>k. Suc k < length ps \<Longrightarrow> spec_distance (ps ! k) (ps ! Suc k) = d) \<Longrightarrow>
   spec_pathLength ps = real (length ps - 1) * d"
proof (induction ps rule: spec_pathLength.induct)
  case (1 p q stroke)
  have "spec_distance p q = d" using "1.prems" [of 0] by simp
  moreover have "spec_pathLength (q # stroke) = real (length (q # stroke) - 1) * d"
  proof (rule "1.IH")
    fix k assume "Suc k < length (q # stroke)"
    then show "spec_distance ((q # stroke) ! k) ((q # stroke) ! Suc k) = d"
      using "1.prems" [of "Suc k"] by simp
  qed
  ultimately show ?case by (simp add: algebra_simps)
qed simp_all

lemma revolution_length [simp]: "length (revolution center radius n) = n"
  by (simp add: revolution_def)

lemma revolution_pathLength:
  assumes "0 \<le> radius"
  shows "spec_pathLength (revolution center radius n) =
         real (n - 1) * (2 * radius * sin (pi / real n))"
proof -
  have "spec_pathLength (revolution center radius n) =
        real (length (revolution center radius n) - 1) * (2 * radius * sin (pi / real n))"
  proof (rule spec_pathLength_constant_step)
    fix k assume "Suc k < length (revolution center radius n)"
    then have k: "k < n" "Suc k < n" by simp_all
    then have n: "0 < real n" by simp
    have "real k * c - real (Suc k) * c = - c" for c :: real
      by (simp add: algebra_simps)
    then have "real k * (2 * pi / real n) - real (Suc k) * (2 * pi / real n) = - (2 * pi / real n)" .
    then have "(real k * (2 * pi / real n) - real (Suc k) * (2 * pi / real n)) / 2 = - (pi / real n)"
      by (simp only:) simp
    moreover have "0 \<le> sin (pi / real n)"
    proof (rule sin_ge_zero)
      show "0 \<le> pi / real n" by simp
      have "pi / real n \<le> pi / 1"
        using k by (intro divide_left_mono) simp_all
      then show "pi / real n \<le> pi" by simp
    qed
    ultimately show "spec_distance (revolution center radius n ! k)
                       (revolution center radius n ! Suc k) = 2 * radius * sin (pi / real n)"
      using k assms by (simp add: revolution_def on_circle_chord del: of_nat_Suc)
  qed
  then show ?thesis by simp
qed

lemma revolution_deviationSum:
  assumes "0 \<le> radius"
  shows "deviationSum (revolution center radius n) center radius = 0"
  using assms
  by (simp add: deviationSum_sum revolution_def comp_def on_circle_center_distance)

lemma revolution_deviationScore:
  assumes "0 < radius"
  shows "deviationScore (revolution center radius n) center radius = 1"
  using assms by (simp add: deviationScore_def avgDeviation_def revolution_deviationSum)

lemma revolution_coverageRatio:
  assumes "12 \<le> n" and "0 < radius"
  shows "coverageRatio (revolution center radius n) center radius = 1"
proof -
  have "0.9 * pi * (2 * radius) \<le> real (n - 1) * sin (pi / real n) * (2 * radius)"
    using sin_pi_over_n [OF assms(1)] assms(2) by (intro mult_right_mono) simp_all
  then have "circumference radius * 0.9 \<le> pathLength (revolution center radius n) center radius"
    using assms(2)
    by (simp add: pathLength_sum revolution_pathLength circumference_def mult_ac)
  moreover have "0 < circumference radius * 0.9"
    using assms(2) by (simp add: circumference_def)
  ultimately have "1 \<le> pathLength (revolution center radius n) center radius
                       / (circumference radius * 0.9)"
    by (simp only: le_divide_eq_1_pos)
  then show ?thesis by (simp add: coverageRatio_def)
qed

lemma revolution_scores_100:
  assumes "12 \<le> n" and "0 < radius"
  shows "scoreDrawing (revolution center radius n) center radius = 100"
proof -
  have "finalScore (revolution center radius n) center radius = 100"
    by (simp add: finalScore_def coverageScore_def revolution_coverageRatio [OF assms]
        revolution_deviationScore [OF assms(2)])
  then show ?thesis using assms(1) by (simp add: scoreDrawing_def)
qed

lemma closed_revolution_length [simp]: "length (closed_revolution center radius n) = n"
  by (simp add: closed_revolution_def)

lemma closed_revolution_pathLength:
  assumes "0 \<le> radius" and "2 \<le> n"
  shows "spec_pathLength (closed_revolution center radius n) =
         real (n - 1) * (2 * radius * sin (pi / real (n - 1)))"
proof -
  have "spec_pathLength (closed_revolution center radius n) =
        real (length (closed_revolution center radius n) - 1)
        * (2 * radius * sin (pi / real (n - 1)))"
  proof (rule spec_pathLength_constant_step)
    fix k assume "Suc k < length (closed_revolution center radius n)"
    then have k: "k < n" "Suc k < n" by simp_all
    define step where "step = 2 * pi / real (n - 1)"
    define h where "h = pi / real (n - 1)"
    have half: "step / 2 = h" by (simp add: step_def h_def)
    have nth: "\<And>j. j < n \<Longrightarrow>
                 closed_revolution center radius n ! j = on_circle center radius (real j * step)"
      by (simp add: closed_revolution_def step_def)
    have "real k * step - real (Suc k) * step = - step"
      by (simp add: algebra_simps)
    then have angle: "(real k * step - real (Suc k) * step) / 2 = - h"
      using half by simp
    have "0 \<le> sin h"
    proof (rule sin_ge_zero)
      show "0 \<le> h" by (simp add: h_def)
      have "pi / real (n - 1) \<le> pi / 1"
        using assms(2) by (intro divide_left_mono) simp_all
      then show "h \<le> pi" by (simp add: h_def)
    qed
    then have "\<bar>sin (- h)\<bar> = sin h" by simp
    then have "spec_distance (on_circle center radius (real k * step))
                 (on_circle center radius (real (Suc k) * step)) = 2 * radius * sin h"
      using assms(1) unfolding on_circle_chord angle by simp
    then show "spec_distance (closed_revolution center radius n ! k)
                       (closed_revolution center radius n ! Suc k)
                     = 2 * radius * sin (pi / real (n - 1))"
      unfolding nth [OF k(1)] nth [OF k(2)] h_def .
  qed
  then show ?thesis by simp
qed

lemma closed_revolution_scores_100:
  assumes "6 \<le> n" and "0 < radius"
  shows "scoreDrawing (closed_revolution center radius n) center radius = 100"
proof -
  have dev: "deviationScore (closed_revolution center radius n) center radius = 1"
    using assms
    by (simp add: deviationScore_def avgDeviation_def deviationSum_sum closed_revolution_def
        comp_def on_circle_center_distance)
  have "5 \<le> n - 1" using assms(1) by simp
  then have "0.9 * pi * (2 * radius) \<le> real (n - 1) * sin (pi / real (n - 1)) * (2 * radius)"
    using sin_pi_over_m [of "n - 1"] assms(2) by (intro mult_right_mono) simp_all
  then have "circumference radius * 0.9
             \<le> pathLength (closed_revolution center radius n) center radius"
    using assms
    by (simp add: pathLength_sum closed_revolution_pathLength circumference_def mult_ac)
  moreover have "0 < circumference radius * 0.9"
    using assms(2) by (simp add: circumference_def)
  ultimately have "1 \<le> pathLength (closed_revolution center radius n) center radius
                       / (circumference radius * 0.9)"
    by (simp only: le_divide_eq_1_pos)
  then have cov: "coverageRatio (closed_revolution center radius n) center radius = 1"
    by (simp add: coverageRatio_def)
  have "finalScore (closed_revolution center radius n) center radius = 100"
    by (simp add: finalScore_def coverageScore_def cov dev)
  then show ?thesis using assms(1) by (simp add: scoreDrawing_def)
qed

lemma powr_three_quarters_pow4:
  fixes q :: real
  assumes "0 \<le> q"
  shows "(q powr 0.75) ^ 4 = q ^ 3"
proof -
  have "(q powr 0.75) ^ 4 = (q powr 0.75) powr 4" by simp
  also have "\<dots> = q powr 3" by (simp add: powr_powr)
  also have "\<dots> = q ^ 3" using assms by simp
  finally show ?thesis .
qed

lemma hexagon_coverageRatio:
  assumes "0 < radius"
  shows "coverageRatio (revolution center radius 6) center radius = 25 / (9 * pi)"
proof -
  have "pathLength (revolution center radius 6) center radius = 5 * radius"
    using assms by (simp add: pathLength_sum revolution_pathLength sin_30)
  then have "pathLength (revolution center radius 6) center radius / (circumference radius * 0.9)
             = 25 / (9 * pi)"
    using assms by (simp add: circumference_def)
  moreover have "25 / (9 * pi) \<le> 1" using pi_ge_3 by simp
  ultimately show ?thesis by (simp add: coverageRatio_def)
qed

lemma hexagon_coverageScore:
  assumes "0 < radius"
  shows "0.9 \<le> coverageScore (revolution center radius 6) center radius"
    and "coverageScore (revolution center radius 6) center radius \<le> 0.92"
proof -
  define q where "q = 25 / (9 * pi)"
  define c where "c = q powr 0.75"
  have q_lo: "879/1000 \<le> q"
    unfolding q_def using pi_le_316 by (simp add: le_divide_eq)
  have q_hi: "q \<le> 8904/10000"
    unfolding q_def using pi_ge_312 by (simp add: divide_le_eq)
  have q0: "0 \<le> q" using q_lo by simp
  have c0: "0 \<le> c" by (simp add: c_def)
  have c4: "c ^ 4 = q ^ 3" unfolding c_def using q0 by (rule powr_three_quarters_pow4)
  have "(879/1000) ^ 3 \<le> q ^ 3" using q_lo by (intro power_mono) simp_all
  then have "(9/10) ^ 4 \<le> c ^ 4" unfolding c4 by (simp add: power_divide)
  moreover have "(9/10) ^ 4 \<le> c ^ 4 \<longleftrightarrow> 9/10 \<le> c"
    using c0 by (intro power_mono_iff) simp_all
  ultimately have lo: "9/10 \<le> c" by blast
  have "q ^ 3 \<le> (8904/10000) ^ 3" using q_hi q0 by (intro power_mono) simp_all
  then have "c ^ 4 \<le> (92/100) ^ 4" unfolding c4 by (simp add: power_divide)
  moreover have "c ^ 4 \<le> (92/100) ^ 4 \<longleftrightarrow> c \<le> 92/100"
    using c0 by (intro power_mono_iff) simp_all
  ultimately have hi: "c \<le> 92/100" by blast
  have "coverageScore (revolution center radius 6) center radius = c"
    by (simp add: coverageScore_def hexagon_coverageRatio [OF assms] c_def q_def)
  then show "0.9 \<le> coverageScore (revolution center radius 6) center radius"
    and "coverageScore (revolution center radius 6) center radius \<le> 0.92"
    using lo hi by simp_all
qed

lemma hexagon_scores_97:
  assumes "0 < radius"
  shows "scoreDrawing (revolution center radius 6) center radius = 97"
proof -
  define c where "c = coverageScore (revolution center radius 6) center radius"
  have lo: "9/10 \<le> c" and hi: "c \<le> 92/100"
    using hexagon_coverageScore [OF assms, of center] by (simp_all add: c_def)
  have "finalScore (revolution center radius 6) center radius =
        round ((65/100 + c * (35/100)) * 100)"
    by (simp add: finalScore_def revolution_deviationScore [OF assms] c_def)
  also have "\<dots> = 97"
    using lo hi by (intro round_unique) simp_all
  finally show ?thesis by (simp add: scoreDrawing_def)
qed

subsection \<open>Pointer positions when the backing store is a whole number of pixels\<close>

lemma to_unsigned_long_whole:
  assumes "0 \<le> k" and "k \<le> 2147483647"
  shows "to_unsigned_long (of_int k) = nat k"
  using assms by (simp add: to_unsigned_long_def)

lemma set_dimension_whole:
  assumes "0 \<le> k" and "k \<le> 2147483647"
  shows "set_dimension fallback (of_int k) = nat k"
proof -
  have "nat k \<le> 2147483647" using assms by (simp add: nat_le_iff)
  then show ?thesis
    using assms by (simp add: set_dimension_def to_unsigned_long_whole Let_def)
qed

lemma pointer_position_whole_pixels:
  assumes "rect_width canvas = CANVAS_SIZE"
    and "CANVAS_SIZE * (if ratio = 0 then 1 else ratio) = of_int k"
    and "0 \<le> k" and "k \<le> 2147483647"
  shows "getPointerPosition (mounted (Some canvas) True ratio) event =
         Some \<lparr>x = clientX event - rect_left canvas, y = clientY event - rect_top canvas\<rparr>"
proof -
  define d where "d = (if ratio = 0 then 1 else ratio)"
  have d0: "d \<noteq> 0" by (simp add: d_def)
  have w: "real (set_dimension 300 (CANVAS_SIZE * d)) = CANVAS_SIZE * d"
    using assms(2,3,4) by (simp add: d_def [symmetric] set_dimension_whole)
  have "real (set_dimension 300 (CANVAS_SIZE * d)) / CANVAS_SIZE / d = 1"
    unfolding w using d0 by (simp add: CANVAS_SIZE_def)
  then show ?thesis
    using assms(1)
    by (simp add: getPointerPosition_def mounted_def canvas_effect_def initial_def Let_def
        d_def [symmetric])
qed

section \<open>The properties of the specification\<close>

subsection \<open>The scorer\<close>

text \<open>
  Claim C1. For every stroke and every reference circle the score the code computes is the
  score of the specification's definition: 0 below six samples, otherwise the rounded,
  clamped weighted sum of the deviation score (mean absolute deviation from the radius
  against 60 percent of the radius) and of the coverage score (the path length against
  90 percent of the circumference, capped at 1, to the power 0.75).
\<close>

theorem scoreDrawing_refines_spec:
  "scoreDrawing stroke center radius = spec_score stroke center radius"
  by (simp add: scoreDrawing_def spec_score_def finalScore_def deviationScore_def
      spec_deviationScore_def avgDeviation_def spec_avgDeviation_def deviationSum_sum
      coverageScore_def spec_coverageScore_def coverageRatio_def spec_coverageRatio_def
      pathLength_sum circumference_def)

text \<open>
  Claim C2. For every stroke and every reference circle of positive radius the score is an
  integer between 0 and 100: the result type is \<open>int\<close>, and the last line of
  \<open>scoreDrawing\<close> clamps it.
\<close>

theorem score_range:
  "0 < radius \<Longrightarrow>
   0 \<le> scoreDrawing points center radius \<and> scoreDrawing points center radius \<le> 100"
  by (simp add: scoreDrawing_def)

theorem score_range_witness:
  "(0::real) < 121.6 \<and>
   0 \<le> scoreDrawing (replicate 7 \<lparr>x = 200, y = 90\<rparr>) \<lparr>x = 160, y = 160\<rparr> 121.6 \<and>
   scoreDrawing (replicate 7 \<lparr>x = 200, y = 90\<rparr>) \<lparr>x = 160, y = 160\<rparr> 121.6 \<le> 100"
  using score_range [of "121.6" "replicate 7 \<lparr>x = 200, y = 90\<rparr>" "\<lparr>x = 160, y = 160\<rparr>"]
  by simp

text \<open>
  Claim C3, as the specification states it, fails: six samples on the circle, one every
  sixth of a turn, are joined by five chords as long as the radius, which is less than
  90 percent of the circumference; the coverage ratio stays below 1 and the score is 97.
\<close>

theorem full_revolution_counterexample:
  "\<not> scoreDrawing (revolution \<lparr>x = 160, y = 160\<rparr> 121.6 6) \<lparr>x = 160, y = 160\<rparr> 121.6 = 100"
  using hexagon_scores_97 [of "121.6" "\<lparr>x = 160, y = 160\<rparr>"] by simp

text \<open>
  Claim C3, amended. For every \<open>n\<close> of at least 12 and every positive radius, the stroke of
  \<open>n\<close> samples on the reference circle, evenly spaced over a full revolution, scores
  exactly 100: its deviation score is 1 and its coverage ratio reaches the cap of 1.
\<close>

theorem full_revolution_scores_100:
  assumes "12 \<le> n" and "0 < radius"
  shows "scoreDrawing (revolution center radius n) center radius = 100 \<and>
         deviationScore (revolution center radius n) center radius = 1 \<and>
         coverageRatio (revolution center radius n) center radius = 1"
  using assms
  by (simp add: revolution_scores_100 revolution_deviationScore revolution_coverageRatio)

theorem full_revolution_scores_100_witness:
  "(12::nat) \<le> 12 \<and> (0::real) < 50 \<and>
   scoreDrawing (revolution \<lparr>x = 0, y = 0\<rparr> 50 12) \<lparr>x = 0, y = 0\<rparr> 50 = 100"
  using full_revolution_scores_100 [of 12 50 "\<lparr>x = 0, y = 0\<rparr>"] by simp

text \<open>
  Claim C4, as the specification states it, fails: six identical samples that lie on the
  reference circle have deviation 0 and path length 0, and score 65, which is above 35.
\<close>

theorem stationary_counterexample:
  "\<not> scoreDrawing (replicate 6 \<lparr>x = 281.6, y = 160\<rparr>) \<lparr>x = 160, y = 160\<rparr> 121.6 \<le> 35"
proof -
  let ?p = "\<lparr>x = 281.6, y = 160\<rparr>" and ?c = "\<lparr>x = 160, y = 160\<rparr>"
  have "deviationSum (replicate 6 ?p) ?c 121.6 = 0"
    by (simp add: deviationSum_sum spec_distance_def sum_list_replicate)
  then have "deviationScore (replicate 6 ?p) ?c 121.6 = 1"
    by (simp add: deviationScore_def avgDeviation_def)
  then have "finalScore (replicate 6 ?p) ?c 121.6 = 65"
    by (simp add: finalScore_def coverageScore_stationary)
  then show ?thesis by (simp add: scoreDrawing_def)
qed

text \<open>
  Claim C4, amended. For every stroke of at least six samples that are all the same point,
  and every positive radius, the score is at most 65: the coverage term is 0 and the
  deviation term, weighted 0.65, is all that is left.
\<close>

theorem stationary_score_le_65:
  assumes "6 \<le> n" and "0 < radius"
  shows "scoreDrawing (replicate n p) center radius \<le> 65"
proof -
  have "deviationScore (replicate n p) center radius * 0.65 * 100 \<le> 65"
    using deviationScore_le_1 [OF assms(2), of "replicate n p" center] by simp
  then have "finalScore (replicate n p) center radius \<le> round (65::real)"
    unfolding finalScore_def coverageScore_stationary
    by (intro round_mono) simp
  then show ?thesis by (simp add: scoreDrawing_def)
qed

theorem stationary_score_le_65_witness:
  "(6::nat) \<le> 8 \<and> (0::real) < 121.6 \<and>
   scoreDrawing (replicate 8 \<lparr>x = 100, y = 100\<rparr>) \<lparr>x = 160, y = 160\<rparr> 121.6 \<le> 65"
  using stationary_score_le_65 [of 8 "121.6" "\<lparr>x = 100, y = 100\<rparr>" "\<lparr>x = 160, y = 160\<rparr>"]
  by simp

text \<open>
  Claim C8. For the reference circle the component starts with, centre (160, 160) and radius
  121.6, the stroke of 360 points on the circle, one per degree, has deviation score 1,
  coverage ratio 1, coverage score 1 and final score 100.
\<close>

theorem one_degree_steps_score_100:
  "centerRef (initial canvas) = \<lparr>x = 160, y = 160\<rparr> \<and>
   radiusRef (initial canvas) = 121.6 \<and>
   deviationScore (revolution \<lparr>x = 160, y = 160\<rparr> 121.6 360) \<lparr>x = 160, y = 160\<rparr> 121.6 = 1 \<and>
   coverageRatio (revolution \<lparr>x = 160, y = 160\<rparr> 121.6 360) \<lparr>x = 160, y = 160\<rparr> 121.6 = 1 \<and>
   coverageScore (revolution \<lparr>x = 160, y = 160\<rparr> 121.6 360) \<lparr>x = 160, y = 160\<rparr> 121.6 = 1 \<and>
   scoreDrawing (revolution \<lparr>x = 160, y = 160\<rparr> 121.6 360) \<lparr>x = 160, y = 160\<rparr> 121.6 = 100"
  by (simp add: initial_def CANVAS_SIZE_def revolution_scores_100 revolution_deviationScore
      revolution_coverageRatio coverageScore_def)

subsection \<open>Stroke capture\<close>

text \<open>
  Claim C5. After any sequence of events handled from the mounted component, where
  \<open>bestScore\<close> is 0, \<open>bestScore\<close> is the maximum of 0 and of every \<open>lastScore\<close> shown so far,
  hence the maximum of the \<open>lastScore\<close> values as soon as there is one; and it never
  decreases when more events are handled.
\<close>

theorem bestScore_is_max:
  "bestScore (run (mounted canvas gotContext ratio) evs) =
     Max (set (0 # lastScores (mounted canvas gotContext ratio) evs)) \<and>
   (lastScores (mounted canvas gotContext ratio) evs \<noteq> [] \<longrightarrow>
      bestScore (run (mounted canvas gotContext ratio) evs) =
        Max (set (lastScores (mounted canvas gotContext ratio) evs))) \<and>
   bestScore (run (mounted canvas gotContext ratio) evs) \<le>
     bestScore (run (mounted canvas gotContext ratio) (evs @ later))"
proof -
  define s0 where "s0 = mounted canvas gotContext ratio"
  have inv: "score_inv s0" unfolding s0_def by (rule score_inv_mounted)
  have b0: "bestScore s0 = 0" unfolding s0_def by (rule bestScore_mounted)
  have first: "bestScore (run s0 evs) = Max (set (0 # lastScores s0 evs))"
    using run_fold_max [OF inv, of evs] b0 by (simp only: Max.set_eq_fold)
  have second: "lastScores s0 evs \<noteq> [] \<longrightarrow>
                bestScore (run s0 evs) = Max (set (lastScores s0 evs))"
  proof
    assume ne: "lastScores s0 evs \<noteq> []"
    have "0 \<le> Max (set (lastScores s0 evs))"
      using ne lastScores_nonneg [OF inv, of _ evs]
      by (metis List.finite_set Max_in set_empty)
    then show "bestScore (run s0 evs) = Max (set (lastScores s0 evs))"
      using first ne by (simp add: max_def)
  qed
  have third: "bestScore (run s0 evs) \<le> bestScore (run s0 (evs @ later))"
    unfolding run_append by (rule bestScore_run_mono)
  from first second third show ?thesis unfolding s0_def by blast
qed

theorem bestScore_is_max_witness:
  "lastScores (mounted (Some \<lparr>width = 300, height = 150, style_width = 0,
       style_height = 0, rect_left = 10, rect_top = 20, rect_width = 320\<rparr>) True 2)
       [PointerDown \<lparr>clientX = 100, clientY = 60, pointerId = 1\<rparr>,
        PointerUp \<lparr>clientX = 100, clientY = 60, pointerId = 1\<rparr>] \<noteq> []
   \<and> bestScore (run (mounted (Some \<lparr>width = 300, height = 150, style_width = 0,
       style_height = 0, rect_left = 10, rect_top = 20, rect_width = 320\<rparr>) True 2)
       [PointerDown \<lparr>clientX = 100, clientY = 60, pointerId = 1\<rparr>,
        PointerUp \<lparr>clientX = 100, clientY = 60, pointerId = 1\<rparr>])
     = Max (set (lastScores (mounted (Some \<lparr>width = 300, height = 150, style_width = 0,
       style_height = 0, rect_left = 10, rect_top = 20, rect_width = 320\<rparr>) True 2)
       [PointerDown \<lparr>clientX = 100, clientY = 60, pointerId = 1\<rparr>,
        PointerUp \<lparr>clientX = 100, clientY = 60, pointerId = 1\<rparr>]))"
  using bestScore_is_max [of "Some \<lparr>width = 300, height = 150, style_width = 0,
       style_height = 0, rect_left = 10, rect_top = 20, rect_width = 320\<rparr>" True 2
       "[PointerDown \<lparr>clientX = 100, clientY = 60, pointerId = 1\<rparr>,
        PointerUp \<lparr>clientX = 100, clientY = 60, pointerId = 1\<rparr>]" "[]"]
  by (simp add: mounted_def canvas_effect_def initial_def Let_def handlePointerDown_def
      handlePointerUp_def finishDrawing_def releaseIfCaptured_def
      getPointerPosition_def CANVAS_SIZE_def scoreDrawing_def)

text \<open>
  Claim C6. Whatever the recorded samples and the score state, the pointer-cancel and the
  pointer-leave handler return the very state the pointer-up handler returns: last score,
  best score, attempt flag, cleared buffer and released capture.
\<close>

theorem terminating_handlers_agree:
  "handlePointerCancel s event = handlePointerUp s event \<and>
   handlePointerLeave s event = handlePointerUp s event \<and>
   handle s (PointerCancel event) = handle s (PointerUp event) \<and>
   handle s (PointerLeave event) = handle s (PointerUp event)"
  by (simp add: handlePointerCancel_def handlePointerLeave_def handlePointerUp_def)

text \<open>
  Claim C7. When pointer-up, pointer-cancel or pointer-leave is handled while the sample
  buffer is empty, no score is recorded: \<open>lastScore\<close>, \<open>bestScore\<close> and \<open>hasAttempt\<close> keep
  their values.
\<close>

theorem empty_buffer_keeps_scores:
  assumes "pointsRef s = []"
    and "ev = PointerUp event \<or> ev = PointerCancel event \<or> ev = PointerLeave event"
  shows "lastScore (handle s ev) = lastScore s \<and> bestScore (handle s ev) = bestScore s \<and>
         hasAttempt (handle s ev) = hasAttempt s"
  using assms finishDrawing_empty [of "releaseIfCaptured s event"]
  by (auto simp add: handlePointerCancel_def handlePointerLeave_def handlePointerUp_def)

theorem empty_buffer_keeps_scores_witness:
  "pointsRef ((mounted (Some \<lparr>width = 300, height = 150, style_width = 0,
       style_height = 0, rect_left = 10, rect_top = 20, rect_width = 320\<rparr>) True 2)\<lparr>isDrawingRef := True\<rparr>) = [] \<and>
   lastScore (handle ((mounted (Some \<lparr>width = 300, height = 150, style_width = 0,
       style_height = 0, rect_left = 10, rect_top = 20, rect_width = 320\<rparr>) True 2)\<lparr>isDrawingRef := True\<rparr>)
                (PointerCancel \<lparr>clientX = 100, clientY = 60, pointerId = 1\<rparr>)) = None \<and>
   bestScore (handle ((mounted (Some \<lparr>width = 300, height = 150, style_width = 0,
       style_height = 0, rect_left = 10, rect_top = 20, rect_width = 320\<rparr>) True 2)\<lparr>isDrawingRef := True\<rparr>)
                (PointerCancel \<lparr>clientX = 100, clientY = 60, pointerId = 1\<rparr>)) = 0 \<and>
   \<not> hasAttempt (handle ((mounted (Some \<lparr>width = 300, height = 150, style_width = 0,
       style_height = 0, rect_left = 10, rect_top = 20, rect_width = 320\<rparr>) True 2)\<lparr>isDrawingRef := True\<rparr>)
                (PointerCancel \<lparr>clientX = 100, clientY = 60, pointerId = 1\<rparr>))"
  using empty_buffer_keeps_scores [of "(mounted (Some \<lparr>width = 300, height = 150, style_width = 0,
       style_height = 0, rect_left = 10, rect_top = 20, rect_width = 320\<rparr>) True 2)\<lparr>isDrawingRef := True\<rparr>"
      "PointerCancel \<lparr>clientX = 100, clientY = 60, pointerId = 1\<rparr>"
      "\<lparr>clientX = 100, clientY = 60, pointerId = 1\<rparr>"]
  by (simp add: mounted_def canvas_effect_def initial_def Let_def)


text \<open>
  Claim C10. In a state reached from the mounted component, a gesture that ends with one
  to five recorded samples is recorded as an attempt: \<open>lastScore\<close> becomes 0, \<open>hasAttempt\<close>
  becomes true, \<open>bestScore\<close> becomes its maximum with 0, which is its old value. And from
  any state, \<open>hasAttempt\<close> once true stays true and \<open>lastScore\<close> once set stays set,
  whatever events follow.
\<close>

theorem short_gesture_is_an_attempt:
  assumes "s = run (mounted canvas gotContext ratio) evs"
    and "1 \<le> length (pointsRef s)" and "length (pointsRef s) \<le> 5"
    and "ev = PointerUp e \<or> ev = PointerCancel e \<or> ev = PointerLeave e"
  shows "lastScore (handle s ev) = Some 0 \<and> hasAttempt (handle s ev) \<and>
         bestScore (handle s ev) = max (bestScore s) 0 \<and>
         bestScore (handle s ev) = bestScore s \<and>
         (hasAttempt t \<longrightarrow> hasAttempt (run t later)) \<and>
         (lastScore t \<noteq> None \<longrightarrow> lastScore (run t later) \<noteq> None)"
proof -
  have inv: "capture_inv s"
    unfolding assms(1) by (rule capture_inv_run) (rule capture_inv_mounted)
  then have drawing: "isDrawingRef s" and best: "0 \<le> bestScore s"
    using assms(2) by (auto simp add: capture_inv_def)
  have fin: "handle s ev = finishDrawing (releaseIfCaptured s e)"
    using assms(4)
    by (auto simp add: handlePointerUp_def handlePointerCancel_def handlePointerLeave_def)
  show ?thesis
    using finishDrawing_short [OF drawing assms(2,3), of e] best hasAttempt_run lastScore_run
    unfolding fin by simp
qed

theorem short_gesture_is_an_attempt_witness:
  "1 \<le> length (pointsRef (run (mounted (Some \<lparr>width = 300, height = 150, style_width = 0,
       style_height = 0, rect_left = 10, rect_top = 20, rect_width = 320\<rparr>) True 2)
       [PointerDown \<lparr>clientX = 100, clientY = 60, pointerId = 1\<rparr>,
        PointerMove \<lparr>clientX = 110, clientY = 70, pointerId = 1\<rparr>]))
   \<and> length (pointsRef (run (mounted (Some \<lparr>width = 300, height = 150, style_width = 0,
       style_height = 0, rect_left = 10, rect_top = 20, rect_width = 320\<rparr>) True 2)
       [PointerDown \<lparr>clientX = 100, clientY = 60, pointerId = 1\<rparr>,
        PointerMove \<lparr>clientX = 110, clientY = 70, pointerId = 1\<rparr>])) \<le> 5
   \<and> lastScore (handle (run (mounted (Some \<lparr>width = 300, height = 150, style_width = 0,
       style_height = 0, rect_left = 10, rect_top = 20, rect_width = 320\<rparr>) True 2)
       [PointerDown \<lparr>clientX = 100, clientY = 60, pointerId = 1\<rparr>,
        PointerMove \<lparr>clientX = 110, clientY = 70, pointerId = 1\<rparr>])
       (PointerUp \<lparr>clientX = 110, clientY = 70, pointerId = 1\<rparr>)) = Some 0
   \<and> hasAttempt (handle (run (mounted (Some \<lparr>width = 300, height = 150, style_width = 0,
       style_height = 0, rect_left = 10, rect_top = 20, rect_width = 320\<rparr>) True 2)
       [PointerDown \<lparr>clientX = 100, clientY = 60, pointerId = 1\<rparr>,
        PointerMove \<lparr>clientX = 110, clientY = 70, pointerId = 1\<rparr>])
       (PointerUp \<lparr>clientX = 110, clientY = 70, pointerId = 1\<rparr>))"
  using short_gesture_is_an_attempt [OF refl, of "Some \<lparr>width = 300, height = 150, style_width = 0,
       style_height = 0, rect_left = 10, rect_top = 20, rect_width = 320\<rparr>" True 2
       "[PointerDown \<lparr>clientX = 100, clientY = 60, pointerId = 1\<rparr>,
        PointerMove \<lparr>clientX = 110, clientY = 70, pointerId = 1\<rparr>]"
       "PointerUp \<lparr>clientX = 110, clientY = 70, pointerId = 1\<rparr>"
       "\<lparr>clientX = 110, clientY = 70, pointerId = 1\<rparr>"]
  by (simp add: mounted_def canvas_effect_def initial_def Let_def handlePointerDown_def
      handlePointerMove_def getPointerPosition_def CANVAS_SIZE_def)

end
